theory Spec2Isabelle
  imports Main "HOL-Library.Word"
begin

section \<open>The virtual clock of \<^verbatim>\<open>Arduino.cpp\<close>\<close>

text \<open>
  The clock is four globals: \<^verbatim>\<open>const uint64_t start\<close> and \<^verbatim>\<open>startMicros\<close>, captured
  once when the process starts, and the override pair \<^verbatim>\<open>fakeMillis\<close>, \<^verbatim>\<open>useFakeMillis\<close>.
  They are the fields of one record that every clock function takes (and the two setters
  return). All four arithmetic values are \<^verbatim>\<open>uint64_t\<close>, so they are 64-bit words:
  \<open>*\<close> and \<open>-\<close> wrap around exactly as the C++ operators do.

  The system clock is the environment: \<open>millis\<close> and \<open>micros\<close> take the reading
  of \<^verbatim>\<open>system_clock::now()\<close> at the moment of the call (in milliseconds, respectively
  microseconds, since the epoch) as their second argument.
\<close>

type_synonym u64 = "64 word"

record clock =
  start :: u64
  startMicros :: u64
  fakeMillis :: u64
  useFakeMillis :: bool

definition millis :: "clock \<Rightarrow> u64 \<Rightarrow> u64" where
  "millis c now_ms = (if useFakeMillis c then fakeMillis c else now_ms - start c)"

definition micros :: "clock \<Rightarrow> u64 \<Rightarrow> u64" where
  "micros c now_us = (if useFakeMillis c then fakeMillis c * 1000 else now_us - startMicros c)"

definition setMillis :: "u64 \<Rightarrow> clock \<Rightarrow> clock" where
  "setMillis ms c = c\<lparr>fakeMillis := ms, useFakeMillis := True\<rparr>"

definition resetMillis :: "clock \<Rightarrow> clock" where
  "resetMillis c = c\<lparr>fakeMillis := 0, useFakeMillis := False\<rparr>"

section \<open>Memory: bytes, arrays and faults\<close>

text \<open>
  A \<^verbatim>\<open>char\<close> or \<^verbatim>\<open>uint8_t\<close> is an 8-bit word. A fixed-size array member such as
  \<^verbatim>\<open>char inputBuffer[N]\<close> is a list of \<open>N\<close> bytes, so \<^verbatim>\<open>sizeof(inputBuffer)\<close> is
  the length of the list; the header that fixes \<open>N\<close> is not among the sources, and no
  definition below depends on its value.

  C++ gives no meaning to a store or load outside an array. Every array access of the
  source goes through \<open>store\<close>, \<open>load\<close> or \<open>memcpy\<close>, which return the fault
  \<open>OutOfBounds index size\<close> instead of a value when the access leaves the array, so a
  run of the model that returns \<open>Inr\<close> is a run of the program that stays in bounds.
\<close>

type_synonym byte = "8 word"

datatype fault = OutOfBounds nat nat

definition andThen :: "fault + 'a \<Rightarrow> ('a \<Rightarrow> fault + 'b) \<Rightarrow> fault + 'b" where
  "andThen m f = (case m of Inl e \<Rightarrow> Inl e | Inr x \<Rightarrow> f x)"

definition store :: "byte list \<Rightarrow> nat \<Rightarrow> byte \<Rightarrow> fault + byte list" where
  "store a i v = (if i < length a then Inr (a[i := v]) else Inl (OutOfBounds i (length a)))"

definition load :: "byte list \<Rightarrow> nat \<Rightarrow> fault + byte" where
  "load a i = (if i < length a then Inr (a ! i) else Inl (OutOfBounds i (length a)))"

text \<open>\<^verbatim>\<open>memcpy(dst + off, src, n)\<close>: the first \<open>n\<close> bytes of \<open>src\<close> replace
  \<open>dst[off .. off + n)\<close>.\<close>

definition memcpy :: "byte list \<Rightarrow> nat \<Rightarrow> byte list \<Rightarrow> nat \<Rightarrow> fault + byte list" where
  "memcpy dst off src n =
     (if off + n \<le> length dst \<and> n \<le> length src
      then Inr (take off dst @ take n src @ drop (off + n) dst)
      else Inl (OutOfBounds (off + n) (length dst)))"

text \<open>
  A \<^verbatim>\<open>const char *\<close> argument is \<open>None\<close> for the null pointer and otherwise the bytes
  found at the pointer, the terminating zero byte after the last of them left implicit.
  \<open>strlen\<close> stops at the first zero byte, so a list with a zero byte inside is the C
  string of its prefix.
\<close>

definition strlen :: "byte list \<Rightarrow> nat" where
  "strlen data = length (takeWhile (\<lambda>c. c \<noteq> 0) data)"

text \<open>
  Whether plain \<^verbatim>\<open>char\<close> is signed is the compiler's choice (signed on x86-64 with GCC,
  Clang and MSVC, unsigned on AArch64 Linux). The conversion of a \<^verbatim>\<open>char\<close> to
  \<^verbatim>\<open>int\<close> takes that choice as its first argument.
\<close>

definition char_to_int :: "bool \<Rightarrow> byte \<Rightarrow> int" where
  "char_to_int char_is_signed ch = (if char_is_signed then sint ch else uint ch)"

section \<open>The socket connection\<close>

text \<open>
  Modelled from the spec: the class \<^verbatim>\<open>SITLSocket\<close> (\<^verbatim>\<open>SITLSocket.h\<close>) is not among the
  sources. The spec calls it "a minimal owned TCP-style client connection used to exchange
  raw bytes with an external simulator process" that "reports itself connected", whose
  connect attempt "returns success/failure" ("failure returns to Disconnected"), and whose
  read is "one bounded read" returning "zero or more" bytes. The record holds whether the
  connection is up, the bytes the peer has sent that were not read yet (\<open>rx\<close>) and the
  bytes handed to the connection for sending (\<open>tx\<close>).
\<close>

record SITLSocket =
  connected :: bool
  rx :: "byte list"
  tx :: "byte list"

text \<open>Modelled from the spec: \<^verbatim>\<open>new SITLSocket()\<close>, a connection object that is not
  connected.\<close>

definition SITLSocket_new :: SITLSocket where
  "SITLSocket_new = \<lparr>connected = False, rx = [], tx = []\<rparr>"

text \<open>Modelled from the spec: \<^verbatim>\<open>SITLSocket::isConnected\<close>.\<close>

definition SITLSocket_isConnected :: "SITLSocket \<Rightarrow> bool" where
  "SITLSocket_isConnected k = connected k"

text \<open>Modelled from the spec: \<^verbatim>\<open>SITLSocket::connect\<close>. Whether the peer accepts the
  attempt is the environment's answer \<open>accepted\<close>; the call returns it, and the
  connection is up afterwards exactly when the attempt succeeded.\<close>

definition SITLSocket_connect :: "bool \<Rightarrow> SITLSocket \<Rightarrow> bool \<times> SITLSocket" where
  "SITLSocket_connect accepted k = (accepted, k\<lparr>connected := accepted\<rparr>)"

text \<open>Modelled from the spec: \<^verbatim>\<open>SITLSocket::disconnect\<close>.\<close>

definition SITLSocket_disconnect :: "SITLSocket \<Rightarrow> SITLSocket" where
  "SITLSocket_disconnect k = k\<lparr>connected := False\<rparr>"

text \<open>Modelled from the spec: \<^verbatim>\<open>SITLSocket::read(buffer, maxLen)\<close>, one bounded read. It
  returns the bytes placed in \<open>buffer\<close>, at most \<open>maxLen\<close> of those pending; the
  call's integer result is their number.\<close>

definition SITLSocket_read :: "SITLSocket \<Rightarrow> nat \<Rightarrow> byte list \<times> SITLSocket" where
  "SITLSocket_read k maxLen = (take maxLen (rx k), k\<lparr>rx := drop maxLen (rx k)\<rparr>)"

text \<open>Modelled from the spec: \<^verbatim>\<open>SITLSocket::write(data, len)\<close>; the stream ignores its
  result.\<close>

definition SITLSocket_write :: "SITLSocket \<Rightarrow> byte list \<Rightarrow> SITLSocket" where
  "SITLSocket_write k bytes = k\<lparr>tx := tx k @ bytes\<rparr>"

section \<open>The stream of \<^verbatim>\<open>Arduino.cpp\<close>\<close>

text \<open>
  The members that the methods of \<^verbatim>\<open>Stream\<close> use: the output log \<open>fakeBuffer\<close> with
  its write position \<open>cursor\<close>, the input buffer with \<open>inputCursor\<close> and
  \<open>inputLength\<close>, and the owned pointer \<open>sitlSocket\<close> (\<open>None\<close> is \<^verbatim>\<open>nullptr\<close>).
  The positions never exceed the array sizes in any run that stays in bounds, so they are
  natural numbers.
\<close>

record Stream =
  fakeBuffer :: "byte list"
  cursor :: nat
  inputBuffer :: "byte list"
  inputCursor :: nat
  inputLength :: nat
  sitlSocket :: "SITLSocket option"

definition clearBuffer :: "Stream \<Rightarrow> fault + Stream" where
  "clearBuffer s =
     andThen (store (fakeBuffer s) 0 0) (\<lambda>fb.
     andThen (store (inputBuffer s) 0 0) (\<lambda>ib.
       Inr (s\<lparr>cursor := 0, fakeBuffer := fb, inputCursor := 0, inputLength := 0,
               inputBuffer := ib\<rparr>)))"

definition pollSITLInput :: "Stream \<Rightarrow> fault + Stream" where
  "pollSITLInput s =
     (case sitlSocket s of
        None \<Rightarrow> Inr s
      | Some k \<Rightarrow>
          if \<not> SITLSocket_isConnected k then Inr s
          else
            let s1 = (if inputCursor s \<ge> inputLength s
                      then s\<lparr>inputCursor := 0, inputLength := 0\<rparr> else s);
                roomAvailable = int (length (inputBuffer s1)) - int (inputLength s1)
            in if roomAvailable \<le> 0 then Inr s1
               else
                 let (tempBuffer, k') = SITLSocket_read k (min 256 (nat roomAvailable));
                     bytesRead = int (length tempBuffer);
                     s2 = s1\<lparr>sitlSocket := Some k'\<rparr>
                 in if bytesRead > 0 then
                      andThen (memcpy (inputBuffer s2) (inputLength s2) tempBuffer (nat bytesRead))
                        (\<lambda>ib.
                      andThen (store ib (inputLength s2 + nat bytesRead) 0) (\<lambda>ib'.
                        Inr (s2\<lparr>inputBuffer := ib',
                                 inputLength := inputLength s2 + nat bytesRead\<rparr>)))
                    else Inr s2)"

definition available :: "Stream \<Rightarrow> fault + (bool \<times> Stream)" where
  "available s = andThen (pollSITLInput s) (\<lambda>s'. Inr (inputCursor s' < inputLength s', s'))"

definition read :: "Stream \<Rightarrow> fault + (int \<times> Stream)" where
  "read s =
     andThen (pollSITLInput s) (\<lambda>s'.
       if inputCursor s' \<ge> inputLength s' then Inr (- 1, s')
       else andThen (load (inputBuffer s') (inputCursor s')) (\<lambda>b.
              Inr (uint b, s'\<lparr>inputCursor := inputCursor s' + 1\<rparr>)))"

definition simulateInput :: "Stream \<Rightarrow> byte list option \<Rightarrow> fault + Stream" where
  "simulateInput s data =
     (case data of
        None \<Rightarrow> Inr s
      | Some d \<Rightarrow>
          let n = (if strlen d \<ge> length (inputBuffer s)
                   then length (inputBuffer s) - 1 else strlen d)
          in andThen (memcpy (inputBuffer s) 0 d n) (\<lambda>ib.
             andThen (store ib n 0) (\<lambda>ib'.
               Inr (s\<lparr>inputLength := n, inputBuffer := ib', inputCursor := 0\<rparr>))))"

definition peek :: "Stream \<Rightarrow> fault + (int \<times> Stream)" where
  "peek s =
     andThen (pollSITLInput s) (\<lambda>s'.
       if inputCursor s' \<ge> inputLength s' then Inr (- 1, s')
       else andThen (load (inputBuffer s') (inputCursor s')) (\<lambda>b. Inr (uint b, s')))"

text \<open>
  The loop of \<^verbatim>\<open>readBytesUntil\<close>. The caller's \<open>buffer\<close> is the array that the pointer
  argument points into, \<open>len\<close> the \<^verbatim>\<open>length\<close> argument. \<open>c\<close> is the \<^verbatim>\<open>int\<close> that
  \<open>read\<close> returned (0 to 255, or \<open>-1\<close>); in \<^verbatim>\<open>c == terminator\<close> the \<^verbatim>\<open>char\<close> is
  converted to \<^verbatim>\<open>int\<close>. The result is the count, the buffer and the stream.
\<close>

function readBytesUntil_loop ::
  "bool \<Rightarrow> Stream \<Rightarrow> byte \<Rightarrow> byte list \<Rightarrow> nat \<Rightarrow> nat \<Rightarrow> fault + (nat \<times> byte list \<times> Stream)"
where
  "readBytesUntil_loop char_is_signed s terminator buffer len index =
     (if index < len then
        (case read s of
           Inl e \<Rightarrow> Inl e
         | Inr (c, s') \<Rightarrow>
             if c < 0 then Inr (index, buffer, s')
             else if c = char_to_int char_is_signed terminator then Inr (index, buffer, s')
             else (case store buffer index (word_of_int c) of
                     Inl e \<Rightarrow> Inl e
                   | Inr buffer' \<Rightarrow>
                       readBytesUntil_loop char_is_signed s' terminator buffer' len (index + 1)))
      else Inr (index, buffer, s))"
  by pat_completeness auto
termination
  by (relation "measure (\<lambda>(sg, s, t, buffer, len, index). len - index)") auto

definition readBytesUntil ::
  "bool \<Rightarrow> Stream \<Rightarrow> byte \<Rightarrow> byte list \<Rightarrow> nat \<Rightarrow> fault + (nat \<times> byte list \<times> Stream)"
where
  "readBytesUntil char_is_signed s terminator buffer len =
     (if len < 1 then Inr (0, buffer, s)
      else readBytesUntil_loop char_is_signed s terminator buffer len 0)"

function readBytes_loop ::
  "Stream \<Rightarrow> byte list \<Rightarrow> nat \<Rightarrow> nat \<Rightarrow> fault + (nat \<times> byte list \<times> Stream)"
where
  "readBytes_loop s buffer len count =
     (if count < len then
        (case read s of
           Inl e \<Rightarrow> Inl e
         | Inr (c, s') \<Rightarrow>
             if c < 0 then Inr (count, buffer, s')
             else (case store buffer count (word_of_int c) of
                     Inl e \<Rightarrow> Inl e
                   | Inr buffer' \<Rightarrow> readBytes_loop s' buffer' len (count + 1)))
      else Inr (count, buffer, s))"
  by pat_completeness auto
termination
  by (relation "measure (\<lambda>(s, buffer, len, count). len - count)") auto

definition readBytes :: "Stream \<Rightarrow> byte list \<Rightarrow> nat \<Rightarrow> fault + (nat \<times> byte list \<times> Stream)" where
  "readBytes s buffer len = readBytes_loop s buffer len 0"

text \<open>\<^verbatim>\<open>Stream::write(uint8_t b)\<close>.\<close>

definition write_byte :: "Stream \<Rightarrow> byte \<Rightarrow> fault + (nat \<times> Stream)" where
  "write_byte s b =
     andThen
       (if cursor s < length (fakeBuffer s) - 1 then
          andThen (store (fakeBuffer s) (cursor s) b) (\<lambda>fb.
          andThen (store fb (cursor s + 1) 0) (\<lambda>fb'.
            Inr (s\<lparr>fakeBuffer := fb', cursor := cursor s + 1\<rparr>)))
        else Inr s)
       (\<lambda>s1. Inr (1,
          (case sitlSocket s1 of
             None \<Rightarrow> s1
           | Some k \<Rightarrow>
               if SITLSocket_isConnected k
               then s1\<lparr>sitlSocket := Some (SITLSocket_write k [b])\<rparr>
               else s1)))"

text \<open>
  \<open>connectSITL\<close>: whether a connect attempt to \<open>host\<close> and \<open>port\<close> succeeds is the
  environment's, given as the predicate \<open>net\<close>.
\<close>

definition connectSITL ::
  "(string \<Rightarrow> int \<Rightarrow> bool) \<Rightarrow> Stream \<Rightarrow> string \<Rightarrow> int \<Rightarrow> bool \<times> Stream"
where
  "connectSITL net s host port =
     (let k0 = (case sitlSocket s of None \<Rightarrow> SITLSocket_new | Some k \<Rightarrow> k);
          k1 = (if SITLSocket_isConnected k0 then SITLSocket_disconnect k0 else k0);
          (ok, k2) = SITLSocket_connect (net host port) k1
      in (ok, s\<lparr>sitlSocket := Some k2\<rparr>))"

definition disconnectSITL :: "Stream \<Rightarrow> Stream" where
  "disconnectSITL s =
     (case sitlSocket s of None \<Rightarrow> s | Some k \<Rightarrow> s\<lparr>sitlSocket := None\<rparr>)"

definition isSITLConnected :: "Stream \<Rightarrow> bool" where
  "isSITLConnected s =
     (case sitlSocket s of None \<Rightarrow> False | Some k \<Rightarrow> SITLSocket_isConnected k)"

section \<open>Scenarios and state predicates\<close>

text \<open>
  The claims speak of calling \<open>read\<close> repeatedly and of writing a sequence of single
  bytes. \<open>read_times n\<close> is \<open>n\<close> successive calls of \<open>read\<close>, collecting the
  returned values in order; \<open>write_each\<close> calls \<open>write_byte\<close> once per byte of a
  list, collecting the returned counts; \<open>inject_and_read\<close> is
  \<^verbatim>\<open>simulateInput(str)\<close> followed by \<open>n\<close> calls of \<open>read\<close>. A fault of any call
  ends the run.
\<close>

fun read_times :: "nat \<Rightarrow> Stream \<Rightarrow> fault + (int list \<times> Stream)" where
  "read_times 0 s = Inr ([], s)"
| "read_times (Suc n) s =
     (case read s of
        Inl e \<Rightarrow> Inl e
      | Inr (c, s') \<Rightarrow>
          (case read_times n s' of
             Inl e \<Rightarrow> Inl e
           | Inr (cs, s'') \<Rightarrow> Inr (c # cs, s'')))"

definition inject_and_read :: "Stream \<Rightarrow> byte list \<Rightarrow> nat \<Rightarrow> fault + (int list \<times> Stream)" where
  "inject_and_read s str n = andThen (simulateInput s (Some str)) (read_times n)"

fun write_each :: "Stream \<Rightarrow> byte list \<Rightarrow> fault + (nat list \<times> Stream)" where
  "write_each s [] = Inr ([], s)"
| "write_each s (b # bs) =
     (case write_byte s b of
        Inl e \<Rightarrow> Inl e
      | Inr (r, s') \<Rightarrow>
          (case write_each s' bs of
             Inl e \<Rightarrow> Inl e
           | Inr (rs, s'') \<Rightarrow> Inr (r # rs, s'')))"

text \<open>The invariant that the spec gives for the input buffer, with \<open>capacity\<close> the size
  of \<open>inputBuffer\<close>.\<close>

definition input_invariant :: "Stream \<Rightarrow> bool" where
  "input_invariant s \<longleftrightarrow>
     inputCursor s \<le> inputLength s \<and> inputLength s \<le> length (inputBuffer s) - 1"

text \<open>A C++ array has at least one element.\<close>

definition sized :: "Stream \<Rightarrow> bool" where
  "sized s \<longleftrightarrow> 0 < length (fakeBuffer s) \<and> 0 < length (inputBuffer s)"

text \<open>\<open>quiet\<close>: a refill brings no bytes, because the stream owns no connection, or the
  connection is down, or the peer has sent nothing that is still unread.\<close>

definition quiet :: "Stream \<Rightarrow> bool" where
  "quiet s \<longleftrightarrow>
     (case sitlSocket s of
        None \<Rightarrow> True
      | Some k \<Rightarrow> \<not> SITLSocket_isConnected k \<or> rx k = [])"

text \<open>The unread input: the bytes of \<open>inputBuffer\<close> from \<open>inputCursor\<close> up to
  \<open>inputLength\<close>.\<close>

definition pending :: "Stream \<Rightarrow> byte list" where
  "pending s = take (inputLength s - inputCursor s) (drop (inputCursor s) (inputBuffer s))"

section \<open>Basic facts\<close>

lemma andThen_Inr [simp]: "andThen (Inr x) f = f x"
  by (simp add: andThen_def)

lemma andThen_Inl [simp]: "andThen (Inl e) f = Inl e"
  by (simp add: andThen_def)

section \<open>The clock override\<close>

text \<open>
  C5, as stated: after \<open>setMillis ms\<close> the clock reads \<open>ms\<close> milliseconds and
  \<open>ms * 1000\<close> microseconds for any \<open>ms\<close>. Read as a statement about numbers this
  fails where the product does not fit 64 bits: the source multiplies in \<^verbatim>\<open>uint64_t\<close>.
  At \<open>ms = 2 ^ 63\<close> the microsecond reading is 0.
\<close>

theorem micros_override_wraps_counterexample:
  "unat (micros (setMillis (2 ^ 63)
       \<lparr>start = 0, startMicros = 0, fakeMillis = 0, useFakeMillis = False\<rparr>) 0)
     \<noteq> unat (2 ^ 63 :: u64) * 1000"
  by (simp add: micros_def setMillis_def)

text \<open>
  C5, amended: after \<open>setMillis ms\<close>, whatever the system clock reads at the call,
  \<open>millis\<close> returns exactly \<open>ms\<close> and \<open>micros\<close> returns \<open>ms * 1000\<close> reduced
  modulo \<open>2 ^ 64\<close>, which is exactly \<open>ms * 1000\<close> whenever that product is below
  \<open>2 ^ 64\<close>; reading the clock changes no state, so this holds on every call until the
  next \<open>setMillis\<close> or \<open>resetMillis\<close>. With \<open>ms = 5000\<close> the readings are
  5000 and 5000000.
\<close>

theorem override_reads:
  "millis (setMillis ms c) t = ms
   \<and> unat (micros (setMillis ms c) t') = (unat ms * 1000) mod 2 ^ 64
   \<and> (unat ms * 1000 < 2 ^ 64 \<longrightarrow> unat (micros (setMillis ms c) t') = unat ms * 1000)
   \<and> millis (setMillis 5000 c) t = 5000
   \<and> micros (setMillis 5000 c) t' = 5000000"
  by (simp add: millis_def micros_def setMillis_def unat_word_ariths)

theorem override_reads_witness:
  "unat (5000 :: u64) * 1000 < 2 ^ 64
   \<and> millis (setMillis 5000
        \<lparr>start = 17, startMicros = 17000, fakeMillis = 0, useFakeMillis = False\<rparr>) 99 = 5000
   \<and> unat (micros (setMillis 5000
        \<lparr>start = 17, startMicros = 17000, fakeMillis = 0, useFakeMillis = False\<rparr>) 99000)
       = unat (5000 :: u64) * 1000"
  using override_reads [of 5000
      "\<lparr>start = 17, startMicros = 17000, fakeMillis = 0, useFakeMillis = False\<rparr>" 99 99000]
  by simp

text \<open>
  C6: \<open>resetMillis\<close> leaves \<open>start\<close> (and \<open>startMicros\<close>) as captured at process
  start, and afterwards \<open>millis\<close> returns the system clock's reading minus that original
  \<open>start\<close>: the same value a clock that was never overridden returns at that moment,
  neither zero nor measured from the moment of the reset.
\<close>

theorem resetMillis_resumes_from_start:
  "start (resetMillis (setMillis ms c)) = start c
   \<and> startMicros (resetMillis (setMillis ms c)) = startMicros c
   \<and> millis (resetMillis (setMillis ms c)) now = now - start c
   \<and> millis (resetMillis c) now = now - start c
   \<and> millis (resetMillis (setMillis ms c)) now = millis (c\<lparr>useFakeMillis := False\<rparr>) now"
  by (simp add: millis_def setMillis_def resetMillis_def)

section \<open>Writing to the output log\<close>

text \<open>One call of \<open>write_byte\<close>: it never faults, returns 1, stores the byte and a
  terminator when the cursor is below the last slot and leaves the log alone otherwise,
  and touches nothing of the input side.\<close>

lemma write_byte_step:
  "\<exists>s'. write_byte s b = Inr (1, s')
     \<and> length (fakeBuffer s') = length (fakeBuffer s)
     \<and> (cursor s < length (fakeBuffer s) - 1 \<longrightarrow>
          cursor s' = cursor s + 1
          \<and> fakeBuffer s' = (fakeBuffer s)[cursor s := b, cursor s + 1 := 0])
     \<and> (\<not> cursor s < length (fakeBuffer s) - 1 \<longrightarrow>
          cursor s' = cursor s \<and> fakeBuffer s' = fakeBuffer s)
     \<and> inputBuffer s' = inputBuffer s \<and> inputCursor s' = inputCursor s
     \<and> inputLength s' = inputLength s
     \<and> isSITLConnected s' = isSITLConnected s
     \<and> (sitlSocket s = None \<longrightarrow> sitlSocket s' = None)"
  by (auto simp: write_byte_def store_def isSITLConnected_def SITLSocket_isConnected_def SITLSocket_write_def split: option.splits)

text \<open>
  C3, as stated: \<open>write_byte\<close> returns 0 when the log is at capacity and the byte is
  dropped. The source ends in \<^verbatim>\<open>return 1;\<close> on every path. With a log of four slots
  holding three bytes and the terminator, the byte is dropped (the stream is unchanged)
  and the call still returns 1.
\<close>

theorem write_byte_full_log_counterexample:
  "cursor \<lparr>fakeBuffer = [65, 66, 67, 0], cursor = 3, inputBuffer = [0, 0, 0, 0],
           inputCursor = 0, inputLength = 0, sitlSocket = None\<rparr>
     = length (fakeBuffer \<lparr>fakeBuffer = [65, 66, 67, 0], cursor = 3, inputBuffer = [0, 0, 0, 0],
           inputCursor = 0, inputLength = 0, sitlSocket = None\<rparr>) - 1
   \<and> write_byte \<lparr>fakeBuffer = [65, 66, 67, 0], cursor = 3, inputBuffer = [0, 0, 0, 0],
           inputCursor = 0, inputLength = 0, sitlSocket = None\<rparr> 68
     = Inr (1, \<lparr>fakeBuffer = [65, 66, 67, 0], cursor = 3, inputBuffer = [0, 0, 0, 0],
           inputCursor = 0, inputLength = 0, sitlSocket = None\<rparr>)
   \<and> write_byte \<lparr>fakeBuffer = [65, 66, 67, 0], cursor = 3, inputBuffer = [0, 0, 0, 0],
           inputCursor = 0, inputLength = 0, sitlSocket = None\<rparr> 68
     \<noteq> Inr (0, \<lparr>fakeBuffer = [65, 66, 67, 0], cursor = 3, inputBuffer = [0, 0, 0, 0],
           inputCursor = 0, inputLength = 0, sitlSocket = None\<rparr>)"
  by (simp add: write_byte_def)

text \<open>
  C3, amended: for every stream state and byte, \<open>write_byte\<close> returns 1, whether the
  byte was appended to the log (cursor below the last slot: the byte is stored at the
  cursor, the terminator after it, the cursor advances by one) or dropped (cursor at the
  last slot or beyond: cursor and log unchanged). The stream state includes the socket, so
  neither its presence nor what it sends affects the returned value.
\<close>

theorem write_byte_always_returns_one:
  "\<exists>s'. write_byte s b = Inr (1, s')
     \<and> (cursor s < length (fakeBuffer s) - 1 \<longrightarrow>
          cursor s' = cursor s + 1
          \<and> fakeBuffer s' = (fakeBuffer s)[cursor s := b, cursor s + 1 := 0])
     \<and> (\<not> cursor s < length (fakeBuffer s) - 1 \<longrightarrow>
          cursor s' = cursor s \<and> fakeBuffer s' = fakeBuffer s)"
  using write_byte_step [of s b] by blast

theorem write_byte_always_returns_one_witness:
  "cursor \<lparr>fakeBuffer = [65, 0, 0, 0], cursor = 1, inputBuffer = [0, 0, 0, 0],
           inputCursor = 0, inputLength = 0,
           sitlSocket = Some \<lparr>connected = True, rx = [], tx = []\<rparr>\<rparr>
     < length (fakeBuffer \<lparr>fakeBuffer = [65, 0, 0, 0], cursor = 1, inputBuffer = [0, 0, 0, 0],
           inputCursor = 0, inputLength = 0,
           sitlSocket = Some \<lparr>connected = True, rx = [], tx = []\<rparr>\<rparr>) - 1
   \<and> (\<exists>s'. write_byte \<lparr>fakeBuffer = [65, 0, 0, 0], cursor = 1, inputBuffer = [0, 0, 0, 0],
           inputCursor = 0, inputLength = 0,
           sitlSocket = Some \<lparr>connected = True, rx = [], tx = []\<rparr>\<rparr> 66 = Inr (1, s')
         \<and> cursor s' = 2 \<and> fakeBuffer s' = [65, 66, 0, 0])"
  using write_byte_always_returns_one [of
      "\<lparr>fakeBuffer = [65, 0, 0, 0], cursor = 1, inputBuffer = [0, 0, 0, 0],
           inputCursor = 0, inputLength = 0,
           sitlSocket = Some \<lparr>connected = True, rx = [], tx = []\<rparr>\<rparr>" 66]
  by auto

text \<open>A sequence of single-byte writes, from any cursor within the log: every call
  returns 1, the cursor stops at the last slot, the bytes before the starting cursor stay,
  the accepted bytes follow in order, and a terminated log stays terminated.\<close>

lemma write_each_general:
  "cursor s \<le> length (fakeBuffer s) - 1 \<Longrightarrow>
   \<exists>s'. write_each s bs = Inr (replicate (length bs) 1, s')
     \<and> length (fakeBuffer s') = length (fakeBuffer s)
     \<and> cursor s' = min (length (fakeBuffer s) - 1) (cursor s + length bs)
     \<and> (\<forall>i < cursor s. fakeBuffer s' ! i = fakeBuffer s ! i)
     \<and> (\<forall>i < cursor s' - cursor s. fakeBuffer s' ! (cursor s + i) = bs ! i)
     \<and> (fakeBuffer s ! cursor s = 0 \<longrightarrow> fakeBuffer s' ! cursor s' = 0)"
proof (induction bs arbitrary: s)
  case Nil
  then show ?case by simp
next
  case (Cons b bs)
  obtain s1 where w: "write_byte s b = Inr (1, s1)"
    and len1: "length (fakeBuffer s1) = length (fakeBuffer s)"
    and app: "cursor s < length (fakeBuffer s) - 1 \<Longrightarrow>
          cursor s1 = cursor s + 1
          \<and> fakeBuffer s1 = (fakeBuffer s)[cursor s := b, cursor s + 1 := 0]"
    and full: "\<not> cursor s < length (fakeBuffer s) - 1 \<Longrightarrow>
          cursor s1 = cursor s \<and> fakeBuffer s1 = fakeBuffer s"
    using write_byte_step [of s b] by blast
  have c1: "cursor s1 \<le> length (fakeBuffer s1) - 1"
    using Cons.prems len1 app full by (cases "cursor s < length (fakeBuffer s) - 1") auto
  from Cons.IH [OF c1] obtain s' where
    r: "write_each s1 bs = Inr (replicate (length bs) 1, s')"
    and len': "length (fakeBuffer s') = length (fakeBuffer s1)"
    and cur': "cursor s' = min (length (fakeBuffer s1) - 1) (cursor s1 + length bs)"
    and pre': "\<forall>i < cursor s1. fakeBuffer s' ! i = fakeBuffer s1 ! i"
    and dat': "\<forall>i < cursor s' - cursor s1. fakeBuffer s' ! (cursor s1 + i) = bs ! i"
    and trm': "fakeBuffer s1 ! cursor s1 = 0 \<longrightarrow> fakeBuffer s' ! cursor s' = 0"
    by blast
  have run: "write_each s (b # bs) = Inr (replicate (length (b # bs)) 1, s')"
    using w r by simp
  show ?case
  proof (cases "cursor s < length (fakeBuffer s) - 1")
    case True
    note a = app [OF True]
    have t1: "fakeBuffer s1 ! cursor s1 = 0"
      using a True by simp
    have "\<forall>i < cursor s. fakeBuffer s' ! i = fakeBuffer s ! i"
      using pre' a by simp
    moreover have "\<forall>i < cursor s' - cursor s. fakeBuffer s' ! (cursor s + i) = (b # bs) ! i"
    proof (intro allI impI)
      fix i assume i: "i < cursor s' - cursor s"
      show "fakeBuffer s' ! (cursor s + i) = (b # bs) ! i"
      proof (cases i)
        case 0
        then show ?thesis using pre' a True by simp
      next
        case (Suc j)
        then have "j < cursor s' - cursor s1" using i a by simp
        then have "fakeBuffer s' ! (cursor s1 + j) = bs ! j" using dat' by blast
        then show ?thesis using Suc a by simp
      qed
    qed
    moreover have "cursor s' = min (length (fakeBuffer s) - 1) (cursor s + length (b # bs))"
      using cur' len1 a by simp
    ultimately show ?thesis using run len' len1 trm' t1 by auto
  next
    case False
    note f = full [OF False]
    have eq: "cursor s = length (fakeBuffer s) - 1" using False Cons.prems by simp
    have "cursor s' = cursor s" using cur' len1 f eq by simp
    then show ?thesis using run len' len1 pre' f trm' eq by auto
  qed
qed

text \<open>
  C4: on a stream whose log has \<open>C\<close> slots and is empty (cursor 0, terminator in slot
  0), \<open>C + 5\<close> single-byte writes all return 1 without a fault, and afterwards the cursor
  is \<open>C - 1\<close>, the first \<open>C - 1\<close> slots hold the first \<open>C - 1\<close> bytes written, and
  the last slot holds the terminator 0; the other six bytes are in no slot.
\<close>

theorem write_overflow_retains_capacity_minus_one:
  assumes "0 < length (fakeBuffer s)" and "cursor s = 0" and "fakeBuffer s ! 0 = 0"
    and "length bs = length (fakeBuffer s) + 5"
  shows "\<exists>s'. write_each s bs = Inr (replicate (length (fakeBuffer s) + 5) 1, s')
     \<and> cursor s' = length (fakeBuffer s) - 1
     \<and> length (fakeBuffer s') = length (fakeBuffer s)
     \<and> take (length (fakeBuffer s) - 1) (fakeBuffer s') = take (length (fakeBuffer s) - 1) bs
     \<and> fakeBuffer s' ! (length (fakeBuffer s) - 1) = 0"
proof -
  have "cursor s \<le> length (fakeBuffer s) - 1" using assms by simp
  from write_each_general [OF this, of bs] obtain s' where
    r: "write_each s bs = Inr (replicate (length bs) 1, s')"
    and len': "length (fakeBuffer s') = length (fakeBuffer s)"
    and cur': "cursor s' = min (length (fakeBuffer s) - 1) (cursor s + length bs)"
    and dat': "\<forall>i < cursor s' - cursor s. fakeBuffer s' ! (cursor s + i) = bs ! i"
    and trm': "fakeBuffer s ! cursor s = 0 \<longrightarrow> fakeBuffer s' ! cursor s' = 0"
    by blast
  have c: "cursor s' = length (fakeBuffer s) - 1" using cur' assms by simp
  have "take (length (fakeBuffer s) - 1) (fakeBuffer s') = take (length (fakeBuffer s) - 1) bs"
  proof (rule nth_equalityI)
    show "length (take (length (fakeBuffer s) - 1) (fakeBuffer s')) = length (take (length (fakeBuffer s) - 1) bs)"
      using len' assms by simp
  next
    fix i assume "i < length (take (length (fakeBuffer s) - 1) (fakeBuffer s'))"
    then have i: "i < length (fakeBuffer s) - 1" by simp
    then have "fakeBuffer s' ! i = bs ! i" using dat' c assms by simp
    then show "take (length (fakeBuffer s) - 1) (fakeBuffer s') ! i = take (length (fakeBuffer s) - 1) bs ! i"
      using i by simp
  qed
  then show ?thesis using r len' c trm' assms by auto
qed

theorem write_overflow_witness:
  "0 < length (fakeBuffer \<lparr>fakeBuffer = [0, 9, 9], cursor = 0, inputBuffer = [0],
           inputCursor = 0, inputLength = 0, sitlSocket = None\<rparr>)
   \<and> length [1, 2, 3, 4, 5, 6, 7, 8 :: byte]
       = length (fakeBuffer \<lparr>fakeBuffer = [0, 9, 9], cursor = 0, inputBuffer = [0],
           inputCursor = 0, inputLength = 0, sitlSocket = None\<rparr>) + 5
   \<and> (\<exists>s'. write_each \<lparr>fakeBuffer = [0, 9, 9], cursor = 0, inputBuffer = [0],
           inputCursor = 0, inputLength = 0, sitlSocket = None\<rparr> [1, 2, 3, 4, 5, 6, 7, 8]
         = Inr ([1, 1, 1, 1, 1, 1, 1, 1], s')
       \<and> cursor s' = 2 \<and> take 2 (fakeBuffer s') = [1, 2] \<and> fakeBuffer s' ! 2 = 0)"
  using write_overflow_retains_capacity_minus_one [of
      "\<lparr>fakeBuffer = [0, 9, 9], cursor = 0, inputBuffer = [0],
           inputCursor = 0, inputLength = 0, sitlSocket = None\<rparr>" "[1, 2, 3, 4, 5, 6, 7, 8]"]
  by (auto simp: eval_nat_numeral)

section \<open>Connecting\<close>

text \<open>
  C8: when the connect attempt to \<open>host\<close> and \<open>port\<close> fails, \<open>connectSITL\<close>
  returns \<open>False\<close> (as a value: the function has no other outcome) and leaves the
  buffers and positions as they were, the stream is not connected afterwards, and a
  following \<open>write_byte\<close> returns 1 and acts on the output log alone: with the cursor
  below the last slot the byte is stored at the cursor, the terminator after it and the
  cursor moves on by one; otherwise the stream stays as it is. No other member changes,
  and nothing is handed to the connection.
\<close>

theorem connectSITL_failure:
  assumes "\<not> net host port"
  shows "fst (connectSITL net s host port) = False
     \<and> \<not> isSITLConnected (snd (connectSITL net s host port))
     \<and> fakeBuffer (snd (connectSITL net s host port)) = fakeBuffer s
     \<and> cursor (snd (connectSITL net s host port)) = cursor s
     \<and> inputBuffer (snd (connectSITL net s host port)) = inputBuffer s
     \<and> inputCursor (snd (connectSITL net s host port)) = inputCursor s
     \<and> inputLength (snd (connectSITL net s host port)) = inputLength s
     \<and> write_byte (snd (connectSITL net s host port)) b
         = Inr (1, if cursor s < length (fakeBuffer s) - 1
                   then (snd (connectSITL net s host port))
                          \<lparr>fakeBuffer := (fakeBuffer s)[cursor s := b, cursor s + 1 := 0],
                            cursor := cursor s + 1\<rparr>
                   else snd (connectSITL net s host port))"
  using assms
  by (auto simp: connectSITL_def SITLSocket_connect_def SITLSocket_disconnect_def
      SITLSocket_isConnected_def SITLSocket_new_def isSITLConnected_def write_byte_def store_def
      Let_def split: option.splits)

theorem connectSITL_failure_witness:
  "\<not> (\<lambda>h p. False) ''127.0.0.1'' 5760
   \<and> fst (connectSITL (\<lambda>h p. False)
        \<lparr>fakeBuffer = [0, 0, 0, 0], cursor = 0, inputBuffer = [0, 0, 0, 0],
         inputCursor = 0, inputLength = 0,
         sitlSocket = Some \<lparr>connected = True, rx = [], tx = []\<rparr>\<rparr> ''127.0.0.1'' 5760) = False
   \<and> \<not> isSITLConnected (snd (connectSITL (\<lambda>h p. False)
        \<lparr>fakeBuffer = [0, 0, 0, 0], cursor = 0, inputBuffer = [0, 0, 0, 0],
         inputCursor = 0, inputLength = 0,
         sitlSocket = Some \<lparr>connected = True, rx = [], tx = []\<rparr>\<rparr> ''127.0.0.1'' 5760))
   \<and> write_byte (snd (connectSITL (\<lambda>h p. False)
        \<lparr>fakeBuffer = [0, 0, 0, 0], cursor = 0, inputBuffer = [0, 0, 0, 0],
         inputCursor = 0, inputLength = 0,
         sitlSocket = Some \<lparr>connected = True, rx = [], tx = []\<rparr>\<rparr> ''127.0.0.1'' 5760)) 66
     = Inr (1, \<lparr>fakeBuffer = [66, 0, 0, 0], cursor = 1, inputBuffer = [0, 0, 0, 0],
         inputCursor = 0, inputLength = 0,
         sitlSocket = Some \<lparr>connected = False, rx = [], tx = []\<rparr>\<rparr>)"
proof -
  have v: "snd (connectSITL (\<lambda>h p. False)
        \<lparr>fakeBuffer = [0, 0, 0, 0], cursor = 0, inputBuffer = [0, 0, 0, 0],
         inputCursor = 0, inputLength = 0,
         sitlSocket = Some \<lparr>connected = True, rx = [], tx = []\<rparr>\<rparr> ''127.0.0.1'' 5760)
      = \<lparr>fakeBuffer = [0, 0, 0, 0], cursor = 0, inputBuffer = [0, 0, 0, 0],
         inputCursor = 0, inputLength = 0,
         sitlSocket = Some \<lparr>connected = False, rx = [], tx = []\<rparr>\<rparr>"
    by (simp add: connectSITL_def SITLSocket_connect_def SITLSocket_disconnect_def
        SITLSocket_isConnected_def)
  show ?thesis
    using connectSITL_failure [of "\<lambda>h p. False" "''127.0.0.1''" 5760
        "\<lparr>fakeBuffer = [0, 0, 0, 0], cursor = 0, inputBuffer = [0, 0, 0, 0],
         inputCursor = 0, inputLength = 0,
         sitlSocket = Some \<lparr>connected = True, rx = [], tx = []\<rparr>\<rparr>" 66]
    by (simp add: v)
qed

section \<open>Clearing the buffers\<close>

text \<open>A refill that brings no bytes does not fault; it only rewinds a drained buffer
  when the connection is up.\<close>

lemma pollSITLInput_quiet:
  "quiet s \<Longrightarrow>
   pollSITLInput s =
     Inr (if isSITLConnected s \<and> inputLength s \<le> inputCursor s
          then s\<lparr>inputCursor := 0, inputLength := 0\<rparr> else s)"
  by (auto simp: pollSITLInput_def quiet_def isSITLConnected_def SITLSocket_isConnected_def
      SITLSocket_read_def Let_def split: option.splits)

text \<open>
  C9, as stated: for every stream state, \<open>available\<close> after \<open>clearBuffer\<close> returns
  false. \<open>available\<close> refills from the socket first, so with a connection that is up
  and has three bytes waiting it returns true.
\<close>

theorem clearBuffer_then_available_counterexample:
  "andThen (clearBuffer \<lparr>fakeBuffer = [65, 66, 0, 0], cursor = 2, inputBuffer = [0, 0, 0, 0],
        inputCursor = 0, inputLength = 0,
        sitlSocket = Some \<lparr>connected = True, rx = [1, 2, 3], tx = []\<rparr>\<rparr>) available
   = Inr (True, \<lparr>fakeBuffer = [0, 66, 0, 0], cursor = 0, inputBuffer = [1, 2, 3, 0],
        inputCursor = 0, inputLength = 3,
        sitlSocket = Some \<lparr>connected = True, rx = [], tx = []\<rparr>\<rparr>)"
  by (simp add: clearBuffer_def available_def pollSITLInput_def store_def memcpy_def
      SITLSocket_isConnected_def SITLSocket_read_def Let_def)

text \<open>A refill into an empty input buffer from a connection that is up and holds at least
  one and fewer than \<open>capacity\<close> unread bytes appends them without a fault.\<close>

lemma pollSITLInput_partial_fill:
  assumes "sitlSocket s = Some k" and "SITLSocket_isConnected k"
    and "inputCursor s = 0" and "inputLength s = 0"
    and "rx k \<noteq> []" and "length (rx k) < length (inputBuffer s)"
  shows "\<exists>s'. pollSITLInput s = Inr s' \<and> inputCursor s' = 0 \<and> 0 < inputLength s'
           \<and> cursor s' = cursor s \<and> fakeBuffer s' = fakeBuffer s"
proof -
  define chunk where "chunk = take (min 256 (length (inputBuffer s))) (rx k)"
  have pos: "0 < length (rx k)" using assms(5) by simp
  have lens: "0 < length chunk" "length chunk < length (inputBuffer s)"
    using pos assms(6) unfolding chunk_def length_take by arith+
  have ne: "chunk \<noteq> []" using lens(1) by auto
  have cap: "inputBuffer s \<noteq> []" using lens(2) by auto
  have "pollSITLInput s
      = Inr (s\<lparr>inputCursor := 0, inputLength := 0,
              sitlSocket := Some (k\<lparr>rx := drop (min 256 (length (inputBuffer s))) (rx k)\<rparr>),
              inputBuffer := (chunk @ drop (length chunk) (inputBuffer s))[length chunk := 0],
              inputLength := length chunk\<rparr>)"
    unfolding pollSITLInput_def SITLSocket_read_def Let_def
    using assms(1-4) ne cap lens(2)
    by (simp add: chunk_def [symmetric] memcpy_def store_def del: length_take)
  then show ?thesis using lens(1) by auto
qed

text \<open>
  C9, amended: for every stream state (the arrays having at least one slot),
  \<open>clearBuffer\<close> does not fault, sets \<open>cursor\<close>, \<open>inputCursor\<close> and
  \<open>inputLength\<close> to 0, writes the terminator into slot 0 of both arrays, and leaves the
  owned connection as it was (same object, same connectedness). Afterwards
  \<open>available\<close> returns false if the refill brings no bytes (no connection, connection
  down, or nothing unread from the peer), and returns true if the connection is up and
  holds at least one and fewer than \<open>capacity\<close> unread bytes; in both cases the log
  position is still 0.
\<close>

theorem clearBuffer_resets:
  assumes "sized s"
  shows "\<exists>s'. clearBuffer s = Inr s'
     \<and> cursor s' = 0 \<and> fakeBuffer s' ! 0 = 0
     \<and> inputCursor s' = 0 \<and> inputLength s' = 0 \<and> inputBuffer s' ! 0 = 0
     \<and> length (fakeBuffer s') = length (fakeBuffer s)
     \<and> length (inputBuffer s') = length (inputBuffer s)
     \<and> sitlSocket s' = sitlSocket s
     \<and> isSITLConnected s' = isSITLConnected s
     \<and> (quiet s \<longrightarrow> (\<exists>s''. available s' = Inr (False, s'') \<and> cursor s'' = 0))
     \<and> (\<forall>k. sitlSocket s = Some k \<and> SITLSocket_isConnected k \<and> rx k \<noteq> []
              \<and> length (rx k) < length (inputBuffer s) \<longrightarrow>
            (\<exists>s''. available s' = Inr (True, s'') \<and> cursor s'' = 0))"
proof -
  let ?s' = "s\<lparr>cursor := 0, fakeBuffer := (fakeBuffer s)[0 := 0], inputCursor := 0,
               inputLength := 0, inputBuffer := (inputBuffer s)[0 := 0]\<rparr>"
  have c: "clearBuffer s = Inr ?s'"
    using assms by (simp add: clearBuffer_def sized_def store_def)
  have q: "quiet s \<Longrightarrow> quiet ?s'"
    by (simp add: quiet_def)
  have f: "quiet s \<Longrightarrow> \<exists>s''. available ?s' = Inr (False, s'') \<and> cursor s'' = 0"
    using pollSITLInput_quiet [OF q] by (simp add: available_def)
  have t: "\<exists>s''. available ?s' = Inr (True, s'') \<and> cursor s'' = 0"
    if h: "sitlSocket s = Some k \<and> SITLSocket_isConnected k \<and> rx k \<noteq> []
              \<and> length (rx k) < length (inputBuffer s)" for k
  proof -
    have "\<exists>s1. pollSITLInput ?s' = Inr s1 \<and> inputCursor s1 = 0 \<and> 0 < inputLength s1
           \<and> cursor s1 = cursor ?s' \<and> fakeBuffer s1 = fakeBuffer ?s'"
      using h by (intro pollSITLInput_partial_fill [of _ k]) simp_all
    then show ?thesis by (auto simp: available_def)
  qed
  show ?thesis
    using c assms f t by (auto simp: sized_def isSITLConnected_def)
qed

theorem clearBuffer_resets_witness:
  "sized \<lparr>fakeBuffer = [65, 66, 0, 0], cursor = 2, inputBuffer = [97, 98, 99, 0],
        inputCursor = 1, inputLength = 3,
        sitlSocket = Some \<lparr>connected = True, rx = [], tx = [65, 66]\<rparr>\<rparr>
   \<and> quiet \<lparr>fakeBuffer = [65, 66, 0, 0], cursor = 2, inputBuffer = [97, 98, 99, 0],
        inputCursor = 1, inputLength = 3,
        sitlSocket = Some \<lparr>connected = True, rx = [], tx = [65, 66]\<rparr>\<rparr>
   \<and> (\<exists>s'. clearBuffer \<lparr>fakeBuffer = [65, 66, 0, 0], cursor = 2, inputBuffer = [97, 98, 99, 0],
        inputCursor = 1, inputLength = 3,
        sitlSocket = Some \<lparr>connected = True, rx = [], tx = [65, 66]\<rparr>\<rparr> = Inr s'
      \<and> cursor s' = 0 \<and> inputCursor s' = 0 \<and> inputLength s' = 0
      \<and> isSITLConnected s'
      \<and> (\<exists>s''. available s' = Inr (False, s'')))
   \<and> sized \<lparr>fakeBuffer = [65, 66, 0, 0], cursor = 2, inputBuffer = [97, 98, 99, 0],
        inputCursor = 1, inputLength = 3,
        sitlSocket = Some \<lparr>connected = True, rx = [1, 2, 3], tx = []\<rparr>\<rparr>
   \<and> SITLSocket_isConnected \<lparr>connected = True, rx = [1, 2, 3], tx = []\<rparr>
   \<and> length (rx \<lparr>connected = True, rx = [1, 2, 3 :: byte], tx = []\<rparr>)
        < length (inputBuffer \<lparr>fakeBuffer = [65, 66, 0, 0], cursor = 2,
             inputBuffer = [97, 98, 99, 0], inputCursor = 1, inputLength = 3,
             sitlSocket = Some \<lparr>connected = True, rx = [1, 2, 3], tx = []\<rparr>\<rparr>)
   \<and> (\<exists>s'. clearBuffer \<lparr>fakeBuffer = [65, 66, 0, 0], cursor = 2, inputBuffer = [97, 98, 99, 0],
        inputCursor = 1, inputLength = 3,
        sitlSocket = Some \<lparr>connected = True, rx = [1, 2, 3], tx = []\<rparr>\<rparr> = Inr s'
      \<and> (\<exists>s''. available s' = Inr (True, s'')))"
  using clearBuffer_resets [of "\<lparr>fakeBuffer = [65, 66, 0, 0], cursor = 2, inputBuffer = [97, 98, 99, 0],
        inputCursor = 1, inputLength = 3,
        sitlSocket = Some \<lparr>connected = True, rx = [], tx = [65, 66]\<rparr>\<rparr>"]
    clearBuffer_resets [of "\<lparr>fakeBuffer = [65, 66, 0, 0], cursor = 2, inputBuffer = [97, 98, 99, 0],
        inputCursor = 1, inputLength = 3,
        sitlSocket = Some \<lparr>connected = True, rx = [1, 2, 3], tx = []\<rparr>\<rparr>"]
  by (auto simp: sized_def quiet_def isSITLConnected_def SITLSocket_isConnected_def)

section \<open>Injecting input\<close>

text \<open>
  C10: \<open>simulateInput\<close> with the null pointer returns at once without a fault and
  leaves the whole stream (input buffer, input cursor and length, output log, connection)
  as it was.
\<close>

theorem simulateInput_null_noop: "simulateInput s None = Inr s"
  by (simp add: simulateInput_def)

section \<open>Reading injected input\<close>

text \<open>Facts about a stream whose refill brings no bytes: what one \<open>read\<close> returns, and
  that reading as often as there are unread bytes, and once more, returns those bytes in
  order and then \<open>-1\<close>.\<close>

lemma strlen_no_nul: "0 \<notin> set str \<Longrightarrow> strlen str = length str"
  unfolding strlen_def by (induction str) auto

lemma read_quiet:
  assumes "quiet s" and "inputLength s \<le> length (inputBuffer s)"
  shows "read s =
     (if inputCursor s < inputLength s
      then Inr (uint (inputBuffer s ! inputCursor s), s\<lparr>inputCursor := inputCursor s + 1\<rparr>)
      else Inr (- 1, if isSITLConnected s then s\<lparr>inputCursor := 0, inputLength := 0\<rparr> else s))"
  using assms by (auto simp: read_def pollSITLInput_quiet load_def)

lemma quiet_cursor_update [simp]:
  "quiet (s\<lparr>inputCursor := c\<rparr>) = quiet s" "quiet (s\<lparr>inputLength := n\<rparr>) = quiet s"
  "quiet (s\<lparr>inputBuffer := b\<rparr>) = quiet s"
  by (simp_all add: quiet_def)

lemma pending_Cons:
  "inputCursor s < inputLength s \<Longrightarrow> inputLength s \<le> length (inputBuffer s) \<Longrightarrow>
   pending s = inputBuffer s ! inputCursor s # pending (s\<lparr>inputCursor := inputCursor s + 1\<rparr>)"
proof -
  assume lt: "inputCursor s < inputLength s" and le: "inputLength s \<le> length (inputBuffer s)"
  have a: "inputLength s - inputCursor s = Suc (inputLength s - Suc (inputCursor s))"
    using lt by simp
  have b: "drop (inputCursor s) (inputBuffer s)
      = inputBuffer s ! inputCursor s # drop (Suc (inputCursor s)) (inputBuffer s)"
    using lt le by (simp add: Cons_nth_drop_Suc)
  show ?thesis
    by (simp add: pending_def a b)
qed

lemma read_times_drain:
  "quiet s \<Longrightarrow> inputLength s \<le> length (inputBuffer s) \<Longrightarrow> inputCursor s \<le> inputLength s \<Longrightarrow>
   k = inputLength s - inputCursor s \<Longrightarrow>
   \<exists>s'. read_times (Suc k) s = Inr (map uint (pending s) @ [- 1], s')
        \<and> quiet s' \<and> pending s' = []"
proof (induction k arbitrary: s)
  case 0
  then show ?case
    by (auto simp: read_quiet pending_def)
next
  case (Suc k)
  let ?s1 = "s\<lparr>inputCursor := inputCursor s + 1\<rparr>"
  have lt: "inputCursor s < inputLength s" using Suc.prems by simp
  have r: "read s = Inr (uint (inputBuffer s ! inputCursor s), ?s1)"
    using Suc.prems lt by (simp add: read_quiet)
  have "\<exists>s'. read_times (Suc k) ?s1 = Inr (map uint (pending ?s1) @ [- 1], s')
        \<and> quiet s' \<and> pending s' = []"
    using Suc.prems lt by (intro Suc.IH) auto
  then obtain s' where rt: "read_times (Suc k) ?s1 = Inr (map uint (pending ?s1) @ [- 1], s')"
    and q: "quiet s'" "pending s' = []" by blast
  have "read_times (Suc (Suc k)) s = Inr (map uint (pending s) @ [- 1], s')"
    using r rt pending_Cons [OF lt Suc.prems(2)] by (simp del: read_times.simps(2) add: read_times.simps(2) [of "Suc k" s])
  then show ?case using q by blast
qed

lemma strlen_le: "strlen d \<le> length d"
  by (simp add: strlen_def length_takeWhile_le)

text \<open>What \<open>simulateInput\<close> leaves behind for any string: the first
  \<open>min (strlen d) (capacity - 1)\<close> bytes of the string, the terminator after them, and
  the cursor at 0.\<close>

lemma simulateInput_clamped:
  assumes "0 < length (inputBuffer s)"
    and "n = min (strlen d) (length (inputBuffer s) - 1)"
  shows "simulateInput s (Some d) =
     Inr (s\<lparr>inputLength := n,
            inputBuffer := (take n d @ drop n (inputBuffer s))[n := 0],
            inputCursor := 0\<rparr>)"
proof -
  have a: "n \<le> length d" using assms(2) strlen_le [of d] by simp
  have b: "n < length (inputBuffer s)" using assms by arith
  have c: "(if length (inputBuffer s) \<le> strlen d then length (inputBuffer s) - 1 else strlen d) = n"
  proof (cases "length (inputBuffer s) \<le> strlen d")
    case True
    have "n = length (inputBuffer s) - 1" using True assms(2) by arith
    then show ?thesis using True by simp
  next
    case False
    have "n = strlen d" using False assms(2) by arith
    then show ?thesis using False by simp
  qed
  show ?thesis
    using a b by (simp add: simulateInput_def c memcpy_def store_def Let_def)
qed

text \<open>
  C1, as stated: every string of length at most the capacity of the input buffer is read
  back whole, and the first read after its last byte returns \<open>-1\<close>. Both parts fail.
  \<open>simulateInput\<close> cuts a string of length \<open>capacity\<close> or more down to
  \<open>capacity - 1\<close> bytes, keeping the last slot for the terminator: with four slots and
  the four bytes \<open>abcd\<close>, five reads return \<open>a\<close>, \<open>b\<close>, \<open>c\<close>, \<open>-1\<close>, \<open>-1\<close>.
  And \<open>read\<close> refills from the socket first: with four slots, the string \<open>ab\<close> and a
  connection that is up with the byte \<open>x\<close> waiting, the read after \<open>b\<close> returns
  \<open>x\<close>, not \<open>-1\<close>.
\<close>

theorem simulateInput_full_capacity_counterexample:
  "length [97, 98, 99, 100 :: byte]
     \<le> length (inputBuffer \<lparr>fakeBuffer = [0, 0, 0, 0], cursor = 0, inputBuffer = [0, 0, 0, 0],
           inputCursor = 0, inputLength = 0, sitlSocket = None\<rparr>)
   \<and> inject_and_read \<lparr>fakeBuffer = [0, 0, 0, 0], cursor = 0, inputBuffer = [0, 0, 0, 0],
           inputCursor = 0, inputLength = 0, sitlSocket = None\<rparr> [97, 98, 99, 100] 5
     = Inr ([97, 98, 99, - 1, - 1],
          \<lparr>fakeBuffer = [0, 0, 0, 0], cursor = 0, inputBuffer = [97, 98, 99, 0],
           inputCursor = 3, inputLength = 3, sitlSocket = None\<rparr>)
   \<and> inject_and_read \<lparr>fakeBuffer = [0, 0, 0, 0], cursor = 0, inputBuffer = [0, 0, 0, 0],
           inputCursor = 0, inputLength = 0,
           sitlSocket = Some \<lparr>connected = True, rx = [120], tx = []\<rparr>\<rparr> [97, 98] 3
     = Inr ([97, 98, 120],
          \<lparr>fakeBuffer = [0, 0, 0, 0], cursor = 0, inputBuffer = [97, 98, 120, 0],
           inputCursor = 3, inputLength = 3,
           sitlSocket = Some \<lparr>connected = True, rx = [], tx = []\<rparr>\<rparr>)"
  by code_simp

text \<open>
  C1, amended: on a stream whose refill brings no bytes (no connection, connection down, or
  nothing unread from the peer), for every string \<open>str\<close>, \<open>simulateInput\<close>
  followed by \<open>n + 1\<close> calls of \<open>read\<close>, where \<open>n = min (strlen str) (capacity - 1)\<close>,
  runs without a fault and returns the first \<open>n\<close> bytes of \<open>str\<close> in order, one per
  call, and then \<open>-1\<close>. So a C string (no zero byte inside) of length at most
  \<open>capacity - 1\<close> is returned whole and followed by \<open>-1\<close>, and one of length
  \<open>capacity\<close> or more is cut to its first \<open>capacity - 1\<close> bytes, followed by
  \<open>-1\<close>.
\<close>

theorem simulateInput_read_roundtrip:
  assumes "quiet s" and "0 < length (inputBuffer s)"
  shows "(\<exists>s'. inject_and_read s str (min (strlen str) (length (inputBuffer s) - 1) + 1)
            = Inr (map uint (take (min (strlen str) (length (inputBuffer s) - 1)) str) @ [- 1], s'))
     \<and> (0 \<notin> set str \<and> length str < length (inputBuffer s) \<longrightarrow>
          (\<exists>s'. inject_and_read s str (length str + 1) = Inr (map uint str @ [- 1], s')))
     \<and> (0 \<notin> set str \<and> length (inputBuffer s) \<le> length str \<longrightarrow>
          (\<exists>s'. inject_and_read s str (length (inputBuffer s))
             = Inr (map uint (take (length (inputBuffer s) - 1) str) @ [- 1], s')))"
proof -
  define n where "n = min (strlen str) (length (inputBuffer s) - 1)"
  let ?s1 = "s\<lparr>inputLength := n,
            inputBuffer := (take n str @ drop n (inputBuffer s))[n := 0],
            inputCursor := 0\<rparr>"
  have inj: "simulateInput s (Some str) = Inr ?s1"
    using assms(2) n_def by (rule simulateInput_clamped)
  have a: "n \<le> length str" using strlen_le [of str] by (simp add: n_def)
  have b: "n < length (inputBuffer s)" using assms(2) unfolding n_def by arith
  have p: "pending ?s1 = take n str"
    using a b by (simp add: pending_def min_absorb2)
  have "\<exists>s'. read_times (Suc n) ?s1 = Inr (map uint (pending ?s1) @ [- 1], s')
        \<and> quiet s' \<and> pending s' = []"
    using assms(1) a b by (intro read_times_drain) (auto simp: min_absorb2)
  then have gen: "\<exists>s'. inject_and_read s str (n + 1) = Inr (map uint (take n str) @ [- 1], s')"
    using inj p by (auto simp: inject_and_read_def)
  have whole: "0 \<notin> set str \<Longrightarrow> length str < length (inputBuffer s) \<Longrightarrow> n = length str"
    by (simp add: n_def strlen_no_nul)
  have cut: "0 \<notin> set str \<Longrightarrow> length (inputBuffer s) \<le> length str
      \<Longrightarrow> n = length (inputBuffer s) - 1"
    by (simp add: n_def strlen_no_nul)
  have c2: "0 \<notin> set str \<and> length str < length (inputBuffer s) \<longrightarrow>
          (\<exists>s'. inject_and_read s str (length str + 1) = Inr (map uint str @ [- 1], s'))"
    using gen whole by auto
  have c3: "0 \<notin> set str \<and> length (inputBuffer s) \<le> length str \<longrightarrow>
          (\<exists>s'. inject_and_read s str (length (inputBuffer s))
             = Inr (map uint (take (length (inputBuffer s) - 1) str) @ [- 1], s'))"
  proof (intro impI)
    assume h: "0 \<notin> set str \<and> length (inputBuffer s) \<le> length str"
    then have "n = length (inputBuffer s) - 1" using cut by simp
    moreover have "length (inputBuffer s) - 1 + 1 = length (inputBuffer s)"
      using assms(2) by simp
    ultimately show "\<exists>s'. inject_and_read s str (length (inputBuffer s))
             = Inr (map uint (take (length (inputBuffer s) - 1) str) @ [- 1], s')"
      using gen by simp
  qed
  show ?thesis using gen c2 c3 unfolding n_def by blast
qed

theorem simulateInput_read_roundtrip_witness:
  "quiet \<lparr>fakeBuffer = [0, 0, 0, 0], cursor = 0, inputBuffer = [0, 0, 0, 0],
           inputCursor = 0, inputLength = 0,
           sitlSocket = Some \<lparr>connected = True, rx = [], tx = []\<rparr>\<rparr>
   \<and> 0 < length (inputBuffer \<lparr>fakeBuffer = [0, 0, 0, 0], cursor = 0, inputBuffer = [0, 0, 0, 0],
           inputCursor = 0, inputLength = 0,
           sitlSocket = Some \<lparr>connected = True, rx = [], tx = []\<rparr>\<rparr>)
   \<and> 0 \<notin> set [97, 98, 99 :: byte]
   \<and> length [97, 98, 99 :: byte]
       < length (inputBuffer \<lparr>fakeBuffer = [0, 0, 0, 0], cursor = 0, inputBuffer = [0, 0, 0, 0],
           inputCursor = 0, inputLength = 0,
           sitlSocket = Some \<lparr>connected = True, rx = [], tx = []\<rparr>\<rparr>)
   \<and> (\<exists>s'. inject_and_read \<lparr>fakeBuffer = [0, 0, 0, 0], cursor = 0, inputBuffer = [0, 0, 0, 0],
           inputCursor = 0, inputLength = 0,
           sitlSocket = Some \<lparr>connected = True, rx = [], tx = []\<rparr>\<rparr> [97, 98, 99]
           (length [97, 98, 99 :: byte] + 1)
         = Inr ([97, 98, 99, - 1], s'))
   \<and> 0 \<notin> set [97, 98, 99, 100, 101 :: byte]
   \<and> length (inputBuffer \<lparr>fakeBuffer = [0, 0, 0, 0], cursor = 0, inputBuffer = [0, 0, 0, 0],
           inputCursor = 0, inputLength = 0,
           sitlSocket = Some \<lparr>connected = True, rx = [], tx = []\<rparr>\<rparr>)
        \<le> length [97, 98, 99, 100, 101 :: byte]
   \<and> (\<exists>s'. inject_and_read \<lparr>fakeBuffer = [0, 0, 0, 0], cursor = 0, inputBuffer = [0, 0, 0, 0],
           inputCursor = 0, inputLength = 0,
           sitlSocket = Some \<lparr>connected = True, rx = [], tx = []\<rparr>\<rparr> [97, 98, 99, 100, 101]
           (length (inputBuffer \<lparr>fakeBuffer = [0, 0, 0, 0], cursor = 0,
              inputBuffer = [0, 0, 0, 0], inputCursor = 0, inputLength = 0,
              sitlSocket = Some \<lparr>connected = True, rx = [], tx = []\<rparr>\<rparr>))
         = Inr ([97, 98, 99, - 1], s'))"
  using simulateInput_read_roundtrip [of
      "\<lparr>fakeBuffer = [0, 0, 0, 0], cursor = 0, inputBuffer = [0, 0, 0, 0],
           inputCursor = 0, inputLength = 0,
           sitlSocket = Some \<lparr>connected = True, rx = [], tx = []\<rparr>\<rparr>" "[97, 98, 99]"]
    simulateInput_read_roundtrip [of
      "\<lparr>fakeBuffer = [0, 0, 0, 0], cursor = 0, inputBuffer = [0, 0, 0, 0],
           inputCursor = 0, inputLength = 0,
           sitlSocket = Some \<lparr>connected = True, rx = [], tx = []\<rparr>\<rparr>" "[97, 98, 99, 100, 101]"]
  by (simp add: quiet_def)

section \<open>The input-buffer invariant and the refill\<close>

text \<open>
  C2: the invariant \<open>inputCursor \<le> inputLength \<le> capacity - 1\<close> after every public
  operation, refills included. The refill of \<open>pollSITLInput\<close> takes the room to be
  \<open>capacity - inputLength\<close>, not one less, so a read that fills the room makes
  \<open>inputLength = capacity\<close>, and the terminator is then stored at index \<open>capacity\<close>,
  one past the array. The theorem: from any state that satisfies the invariant, with a
  connection that is up and holds at least as many unread bytes as there is room (the room
  being at most the 256 bytes of one read), each of \<open>available\<close>, \<open>read\<close> and
  \<open>peek\<close> stores out of bounds at index \<open>capacity\<close>.
\<close>

theorem refill_overruns_inputBuffer:
  assumes "sitlSocket s = Some k" and "SITLSocket_isConnected k"
    and "input_invariant s" and "0 < length (inputBuffer s)"
    and "room = length (inputBuffer s)
                 - (if inputLength s \<le> inputCursor s then 0 else inputLength s)"
    and "room \<le> 256" and "room \<le> length (rx k)"
  shows "available s = Inl (OutOfBounds (length (inputBuffer s)) (length (inputBuffer s)))
     \<and> read s = Inl (OutOfBounds (length (inputBuffer s)) (length (inputBuffer s)))
     \<and> peek s = Inl (OutOfBounds (length (inputBuffer s)) (length (inputBuffer s)))"
proof -
  let ?cap = "length (inputBuffer s)"
  have lim: "inputLength s < ?cap"
    using assms(3,4) unfolding input_invariant_def by arith
  have poll: "pollSITLInput s = Inl (OutOfBounds ?cap ?cap)"
  proof (cases "inputLength s \<le> inputCursor s")
    case True
    then have room: "room = ?cap" using assms(5) by simp
    have "min 256 ?cap = ?cap" using assms(6) room by simp
    moreover have "min (length (rx k)) ?cap = ?cap" using assms(7) room by simp
    moreover have "rx k \<noteq> []" using assms(4,7) room by auto
    ultimately show ?thesis
      using assms(1,2,4) True
      by (simp add: pollSITLInput_def SITLSocket_read_def Let_def memcpy_def store_def)
  next
    case False
    then have room: "room = ?cap - inputLength s" using assms(5) by simp
    have "min 256 (?cap - inputLength s) = ?cap - inputLength s" using assms(6) room by simp
    moreover have "min (length (rx k)) (?cap - inputLength s) = ?cap - inputLength s"
      using assms(7) room by simp
    moreover have "rx k \<noteq> []" using assms(7) room lim by auto
    ultimately show ?thesis
      using assms(1,2) False lim
      by (simp add: pollSITLInput_def SITLSocket_read_def Let_def memcpy_def store_def
          nat_diff_distrib' of_nat_diff)
  qed
  then show ?thesis
    by (simp add: available_def read_def peek_def)
qed

theorem refill_overruns_inputBuffer_witness:
  "sitlSocket \<lparr>fakeBuffer = [0, 0, 0, 0], cursor = 0, inputBuffer = [97, 98, 0, 0],
        inputCursor = 1, inputLength = 2,
        sitlSocket = Some \<lparr>connected = True, rx = [1, 2, 3], tx = []\<rparr>\<rparr>
     = Some \<lparr>connected = True, rx = [1, 2, 3], tx = []\<rparr>
   \<and> SITLSocket_isConnected \<lparr>connected = True, rx = [1, 2, 3], tx = []\<rparr>
   \<and> input_invariant \<lparr>fakeBuffer = [0, 0, 0, 0], cursor = 0, inputBuffer = [97, 98, 0, 0],
        inputCursor = 1, inputLength = 2,
        sitlSocket = Some \<lparr>connected = True, rx = [1, 2, 3], tx = []\<rparr>\<rparr>
   \<and> available \<lparr>fakeBuffer = [0, 0, 0, 0], cursor = 0, inputBuffer = [97, 98, 0, 0],
        inputCursor = 1, inputLength = 2,
        sitlSocket = Some \<lparr>connected = True, rx = [1, 2, 3], tx = []\<rparr>\<rparr>
     = Inl (OutOfBounds 4 4)"
  using refill_overruns_inputBuffer [of
      "\<lparr>fakeBuffer = [0, 0, 0, 0], cursor = 0, inputBuffer = [97, 98, 0, 0],
        inputCursor = 1, inputLength = 2,
        sitlSocket = Some \<lparr>connected = True, rx = [1, 2, 3], tx = []\<rparr>\<rparr>"
      "\<lparr>connected = True, rx = [1, 2, 3], tx = []\<rparr>" 2]
  by (simp add: input_invariant_def SITLSocket_isConnected_def)

text \<open>On every path but the refill that brings bytes the invariant is kept:
  \<open>simulateInput\<close> and \<open>clearBuffer\<close> establish it, and \<open>available\<close>, \<open>read\<close>
  and \<open>peek\<close> keep it, without a fault, when the refill brings nothing.\<close>

lemma simulateInput_establishes_invariant:
  assumes "0 < length (inputBuffer s)"
  shows "\<exists>s'. simulateInput s (Some d) = Inr s' \<and> input_invariant s'
           \<and> length (inputBuffer s') = length (inputBuffer s)"
proof -
  have "strlen d \<le> length d"
    by (simp add: strlen_def length_takeWhile_le)
  then show ?thesis
    using assms
    by (auto simp: simulateInput_def memcpy_def store_def input_invariant_def Let_def)
qed

lemma clearBuffer_establishes_invariant:
  "clearBuffer s = Inr s' \<Longrightarrow> input_invariant s'"
  by (auto simp: clearBuffer_def store_def input_invariant_def andThen_def
      split: if_splits sum.splits)

lemma pollSITLInput_quiet_invariant:
  "quiet s \<Longrightarrow> input_invariant s \<Longrightarrow>
   \<exists>s'. pollSITLInput s = Inr s' \<and> input_invariant s' \<and> quiet s'
        \<and> length (inputBuffer s') = length (inputBuffer s)"
  by (auto simp: pollSITLInput_quiet input_invariant_def)

lemma quiet_operations_keep_invariant:
  assumes "quiet s" and "input_invariant s" and "0 < length (inputBuffer s)"
  shows "(\<exists>r s'. available s = Inr (r, s') \<and> input_invariant s')
     \<and> (\<exists>r s'. read s = Inr (r, s') \<and> input_invariant s')
     \<and> (\<exists>r s'. peek s = Inr (r, s') \<and> input_invariant s')"
proof -
  obtain s1 where p: "pollSITLInput s = Inr s1" and i: "input_invariant s1"
    and l: "length (inputBuffer s1) = length (inputBuffer s)"
    using pollSITLInput_quiet_invariant [OF assms(1,2)] by blast
  have a: "\<exists>r s'. available s = Inr (r, s') \<and> input_invariant s'"
    using p i by (simp add: available_def)
  have b: "inputCursor s1 < inputLength s1 \<Longrightarrow> inputCursor s1 < length (inputBuffer s1)"
    using i l assms(3) unfolding input_invariant_def by arith
  have r: "\<exists>r s'. read s = Inr (r, s') \<and> input_invariant s'"
    using p i b by (auto simp: read_def load_def input_invariant_def)
  have k: "\<exists>r s'. peek s = Inr (r, s') \<and> input_invariant s'"
    using p i b by (auto simp: peek_def load_def)
  show ?thesis using a r k by blast
qed

section \<open>Reading up to a terminator\<close>

text \<open>The conversion of a \<^verbatim>\<open>char\<close> to \<^verbatim>\<open>int\<close>: a signed \<^verbatim>\<open>char\<close> of byte value 128
  or more is negative, one below 128 keeps its value.\<close>

lemma high_byte_negative:
  fixes t :: "8 word"
  assumes "128 \<le> uint t"
  shows "sint t < 0"
proof -
  have "uint t < 256" using uint_bounded [of t] by simp
  with assms have "uint t div 128 = 1" by arith
  then have "bit (uint t) 7" by (simp add: bit_iff_odd)
  then have "bit t (LENGTH(8) - Suc 0)" by (simp add: bit_uint_iff)
  then show ?thesis by (simp only: bit_last_iff)
qed
lemma low_byte_same:
  fixes t :: "8 word"
  assumes "uint t < 128"
  shows "sint t = uint t"
proof -
  have "0 \<le> uint t" by simp
  with assms have "uint t div 128 = 0" by arith
  then have "\<not> bit (uint t) 7" by (simp add: bit_iff_odd)
  then have "\<not> bit t (LENGTH(8) - Suc 0)" by (simp add: bit_uint_iff)
  then show ?thesis by (simp add: sint_uint signed_take_bit_eq_if_positive bit_uint_iff take_bit_int_eq_self assms)
qed

text \<open>With a signed \<^verbatim>\<open>char\<close> that is negative the comparison \<^verbatim>\<open>c == terminator\<close> is
  never true for a \<open>c\<close> that passed \<^verbatim>\<open>c < 0\<close>, so the loop is the loop of
  \<open>readBytes\<close>.\<close>

lemma readBytesUntil_loop_signed_high:
  "char_to_int sg t < 0 \<Longrightarrow>
   readBytesUntil_loop sg s t buffer len index = readBytes_loop s buffer len index"
proof (induction sg s t buffer len index rule: readBytesUntil_loop.induct)
  case (1 sg s t buffer len index)
  show ?case
  proof (cases "index < len")
    case False
    then show ?thesis
      by (simp add: readBytesUntil_loop.simps [of sg s t buffer len index]
          readBytes_loop.simps [of s buffer len index])
  next
    case True
    show ?thesis
    proof (cases "read s")
      case (Inl e)
      then show ?thesis using True
        by (simp add: readBytesUntil_loop.simps [of sg s t buffer len index]
            readBytes_loop.simps [of s buffer len index])
    next
      case (Inr p)
      obtain c s' where p: "p = (c, s')" by (cases p)
      show ?thesis
      proof (cases "c < 0")
        case neg: True
        then show ?thesis using True Inr p
          by (simp add: readBytesUntil_loop.simps [of sg s t buffer len index]
              readBytes_loop.simps [of s buffer len index])
      next
        case nonneg: False
        then have ne: "c \<noteq> char_to_int sg t" using "1.prems" by simp
        show ?thesis
        proof (cases "store buffer index (word_of_int c)")
          case (Inl e)
          then show ?thesis using True Inr p nonneg ne
            by (simp add: readBytesUntil_loop.simps [of sg s t buffer len index]
                readBytes_loop.simps [of s buffer len index])
        next
          case st: (Inr buffer')
          have "readBytesUntil_loop sg s' t buffer' len (index + 1)
                = readBytes_loop s' buffer' len (index + 1)"
            using "1.IH" [OF True Inr p [symmetric] nonneg ne st] "1.prems" by simp
          then show ?thesis using True Inr p nonneg ne st
            by (simp add: readBytesUntil_loop.simps [of sg s t buffer len index]
                readBytes_loop.simps [of s buffer len index])
        qed
      qed
    qed
  qed
qed

text \<open>
  C7: for every terminator byte value, \<open>readBytesUntil\<close> stops when the terminator is
  read, consuming it without storing it. \<open>read\<close> returns a byte as a value from 0 to
  255, and the source compares it with the \<^verbatim>\<open>char\<close> terminator converted to \<^verbatim>\<open>int\<close>.
  Where plain \<^verbatim>\<open>char\<close> is signed, a terminator of byte value 128 or more converts to a
  negative number, and \<open>readBytesUntil\<close> is then \<open>readBytes\<close> in every state: the
  terminator is never recognised, and is stored in the buffer like any other byte. With
  the input bytes 255, 65 and the terminator 255, both bytes are copied and 2 is returned,
  where the property asks for nothing copied, 0 returned and the 255 consumed.
\<close>

theorem readBytesUntil_signed_char_misses_terminator:
  assumes "128 \<le> uint terminator"
  shows "readBytesUntil True s terminator buffer len = readBytes s buffer len"
proof -
  have "char_to_int True terminator < 0"
    using assms by (simp add: char_to_int_def high_byte_negative)
  then have loops: "readBytesUntil_loop True s terminator buffer len 0
      = readBytes_loop s buffer len 0"
    by (rule readBytesUntil_loop_signed_high)
  show ?thesis
  proof (cases "len < 1")
    case True
    then have "readBytes_loop s buffer len 0 = Inr (0, buffer, s)"
      by (subst readBytes_loop.simps) simp
    then show ?thesis using True by (simp add: readBytesUntil_def readBytes_def)
  next
    case False
    then show ?thesis using loops
      by (simp add: readBytesUntil_def readBytes_def
          del: readBytesUntil_loop.simps readBytes_loop.simps)
  qed
qed

theorem readBytesUntil_signed_char_misses_terminator_witness:
  "128 \<le> uint (255 :: byte)
   \<and> readBytesUntil True
        \<lparr>fakeBuffer = [0, 0, 0, 0], cursor = 0, inputBuffer = [255, 65, 0, 0],
         inputCursor = 0, inputLength = 2, sitlSocket = None\<rparr> 255 [0, 0, 0, 0] 4
     = Inr (2, [255, 65, 0, 0],
        \<lparr>fakeBuffer = [0, 0, 0, 0], cursor = 0, inputBuffer = [255, 65, 0, 0],
         inputCursor = 2, inputLength = 2, sitlSocket = None\<rparr>)"
proof -
  have h: "128 \<le> uint (255 :: byte)" by simp
  have e: "readBytes
        \<lparr>fakeBuffer = [0, 0, 0, 0], cursor = 0, inputBuffer = [255, 65, 0, 0],
         inputCursor = 0, inputLength = 2, sitlSocket = None\<rparr> [0, 0, 0, 0] 4
     = Inr (2, [255, 65, 0, 0],
        \<lparr>fakeBuffer = [0, 0, 0, 0], cursor = 0, inputBuffer = [255, 65, 0, 0],
         inputCursor = 2, inputLength = 2, sitlSocket = None\<rparr>)"
    by code_simp
  show ?thesis
    using h e readBytesUntil_signed_char_misses_terminator [OF h, of
        "\<lparr>fakeBuffer = [0, 0, 0, 0], cursor = 0, inputBuffer = [255, 65, 0, 0],
         inputCursor = 0, inputLength = 2, sitlSocket = None\<rparr>" "[0, 0, 0, 0]" 4]
    by simp
qed

text \<open>
  For the other terminators (all of them where \<^verbatim>\<open>char\<close> is unsigned, those below 128
  where it is signed) the property of C7 holds on a stream whose refill brings no bytes.
  With \<open>pre\<close> the unread bytes before the first terminator, \<open>readBytesUntil\<close> does
  not fault, copies the first \<open>len\<close> bytes of \<open>pre\<close> to the front of the buffer and
  leaves the rest of the buffer alone, returns their number, and consumes what it copied
  and, when it stopped before \<open>len\<close> bytes, also the terminator (if the input was not
  exhausted).
\<close>

lemma pending_Nil: "inputLength s \<le> inputCursor s \<Longrightarrow> pending s = []"
  by (simp add: pending_def)

lemma readBytesUntil_loop_quiet:
  assumes "quiet s" and "inputCursor s \<le> inputLength s"
    and "inputLength s \<le> length (inputBuffer s)"
    and "len \<le> length buffer" and "index \<le> len"
    and "char_to_int sg t = uint t"
  shows "\<exists>s'. readBytesUntil_loop sg s t buffer len index
           = Inr (index + min (len - index) (length (takeWhile (\<lambda>b. b \<noteq> t) (pending s))),
                  take index buffer
                    @ take (len - index) (takeWhile (\<lambda>b. b \<noteq> t) (pending s))
                    @ drop (index + min (len - index) (length (takeWhile (\<lambda>b. b \<noteq> t) (pending s)))) buffer,
                  s')
         \<and> quiet s'
         \<and> pending s' =
             drop (if length (takeWhile (\<lambda>b. b \<noteq> t) (pending s)) < len - index
                   then Suc (length (takeWhile (\<lambda>b. b \<noteq> t) (pending s)))
                   else len - index) (pending s)"
  using assms
proof (induction sg s t buffer len index rule: readBytesUntil_loop.induct)
  case (1 sg s t buffer len index)
  note unfold = readBytesUntil_loop.simps [of sg s t buffer len index]
  note rd = read_quiet [OF "1.prems"(1) "1.prems"(3)]
  show ?case
  proof (cases "index < len")
    case False
    then have "index = len" using "1.prems" by simp
    then show ?thesis using "1.prems"(1) by (simp add: unfold)
  next
    case True
    show ?thesis
    proof (cases "inputCursor s < inputLength s")
      case False
      then have e: "pending s = []" by (simp add: pending_Nil)
      let ?s' = "if isSITLConnected s then s\<lparr>inputCursor := 0, inputLength := 0\<rparr> else s"
      have "read s = Inr (- 1, ?s')" using False by (simp add: rd)
      then have "readBytesUntil_loop sg s t buffer len index = Inr (index, buffer, ?s')"
        using True by (simp add: unfold)
      moreover have "quiet ?s'" using "1.prems"(1) by simp
      moreover have "pending ?s' = []" using e by (simp add: pending_def)
      ultimately show ?thesis using e by simp
    next
      case lt: True
      let ?b = "inputBuffer s ! inputCursor s"
      let ?s1 = "s\<lparr>inputCursor := inputCursor s + 1\<rparr>"
      have r: "read s = Inr (uint ?b, ?s1)" using lt by (simp add: rd)
      have p: "pending s = ?b # pending ?s1"
        using lt "1.prems"(3) by (rule pending_Cons)
      have q1: "quiet ?s1" using "1.prems"(1) by simp
      show ?thesis
      proof (cases "?b = t")
        case eq: True
        have "readBytesUntil_loop sg s t buffer len index = Inr (index, buffer, ?s1)"
          using True r eq "1.prems"(6) by (simp add: unfold)
        then show ?thesis using q1 p eq True by simp
      next
        case ne: False
        then have ne': "uint ?b \<noteq> char_to_int sg t"
          using "1.prems"(6) by (simp add: word_uint_eq_iff)
        let ?buf = "buffer[index := ?b]"
        have st: "store buffer index (word_of_int (uint ?b)) = Inr ?buf"
          using True "1.prems"(4) by (simp add: store_def)
        have step: "readBytesUntil_loop sg s t buffer len index
              = readBytesUntil_loop sg ?s1 t ?buf len (index + 1)"
          using True r ne' st by (simp add: unfold)
        have "\<exists>s'. readBytesUntil_loop sg ?s1 t ?buf len (index + 1)
           = Inr (index + 1 + min (len - (index + 1)) (length (takeWhile (\<lambda>b. b \<noteq> t) (pending ?s1))),
                  take (index + 1) ?buf
                    @ take (len - (index + 1)) (takeWhile (\<lambda>b. b \<noteq> t) (pending ?s1))
                    @ drop (index + 1 + min (len - (index + 1)) (length (takeWhile (\<lambda>b. b \<noteq> t) (pending ?s1)))) ?buf,
                  s')
         \<and> quiet s'
         \<and> pending s' =
             drop (if length (takeWhile (\<lambda>b. b \<noteq> t) (pending ?s1)) < len - (index + 1)
                   then Suc (length (takeWhile (\<lambda>b. b \<noteq> t) (pending ?s1)))
                   else len - (index + 1)) (pending ?s1)"
        proof (rule "1.IH" [OF True r refl _ ne' st q1])
          show "\<not> uint ?b < 0" by simp
          show "inputCursor ?s1 \<le> inputLength ?s1" using lt by simp
          show "inputLength ?s1 \<le> length (inputBuffer ?s1)" using "1.prems"(3) by simp
          show "len \<le> length ?buf" using "1.prems"(4) by simp
          show "index + 1 \<le> len" using True by simp
          show "char_to_int sg t = uint t" by (rule "1.prems"(6))
        qed
        then obtain s' where
          run: "readBytesUntil_loop sg ?s1 t ?buf len (index + 1)
           = Inr (index + 1 + min (len - (index + 1)) (length (takeWhile (\<lambda>b. b \<noteq> t) (pending ?s1))),
                  take (index + 1) ?buf
                    @ take (len - (index + 1)) (takeWhile (\<lambda>b. b \<noteq> t) (pending ?s1))
                    @ drop (index + 1 + min (len - (index + 1)) (length (takeWhile (\<lambda>b. b \<noteq> t) (pending ?s1)))) ?buf,
                  s')"
          and q': "quiet s'"
          and p': "pending s' =
             drop (if length (takeWhile (\<lambda>b. b \<noteq> t) (pending ?s1)) < len - (index + 1)
                   then Suc (length (takeWhile (\<lambda>b. b \<noteq> t) (pending ?s1)))
                   else len - (index + 1)) (pending ?s1)"
          by blast
        have tk: "take (index + 1) ?buf = take index buffer @ [?b]"
          using True "1.prems"(4) by (simp add: take_Suc_conv_app_nth)
        have len1: "len - index = Suc (len - (index + 1))" using True by simp
        have pre: "takeWhile (\<lambda>b. b \<noteq> t) (pending s)
             = ?b # takeWhile (\<lambda>b. b \<noteq> t) (pending ?s1)"
          using p ne by simp
        have "readBytesUntil_loop sg s t buffer len index
           = Inr (index + min (len - index) (length (takeWhile (\<lambda>b. b \<noteq> t) (pending s))),
                  take index buffer
                    @ take (len - index) (takeWhile (\<lambda>b. b \<noteq> t) (pending s))
                    @ drop (index + min (len - index) (length (takeWhile (\<lambda>b. b \<noteq> t) (pending s)))) buffer,
                  s')"
          unfolding step run pre len1 tk by simp
        moreover have "pending s' =
             drop (if length (takeWhile (\<lambda>b. b \<noteq> t) (pending s)) < len - index
                   then Suc (length (takeWhile (\<lambda>b. b \<noteq> t) (pending s)))
                   else len - index) (pending s)"
          unfolding p' pre len1 using p by auto
        ultimately show ?thesis using q' by blast
      qed
    qed
  qed
qed

lemma readBytesUntil_quiet:
  assumes "quiet s" and "inputCursor s \<le> inputLength s"
    and "inputLength s \<le> length (inputBuffer s)"
    and "len \<le> length buffer"
    and "\<not> char_is_signed \<or> uint t < 128"
  shows "\<exists>s'. readBytesUntil char_is_signed s t buffer len
           = Inr (min len (length (takeWhile (\<lambda>b. b \<noteq> t) (pending s))),
                  take len (takeWhile (\<lambda>b. b \<noteq> t) (pending s))
                    @ drop (min len (length (takeWhile (\<lambda>b. b \<noteq> t) (pending s)))) buffer,
                  s')
         \<and> quiet s'
         \<and> pending s' =
             drop (if length (takeWhile (\<lambda>b. b \<noteq> t) (pending s)) < len
                   then Suc (length (takeWhile (\<lambda>b. b \<noteq> t) (pending s)))
                   else len) (pending s)"
proof (cases "len < 1")
  case True
  then show ?thesis using assms(1) by (simp add: readBytesUntil_def)
next
  case False
  have conv: "char_to_int char_is_signed t = uint t"
    using assms(5) by (auto simp: char_to_int_def low_byte_same)
  show ?thesis
    using readBytesUntil_loop_quiet [OF assms(1-4) _ conv, of 0] False
    by (auto simp: readBytesUntil_def simp del: readBytesUntil_loop.simps split: if_splits)
qed

lemma readBytesUntil_ascii_example:
  "readBytesUntil True
        \<lparr>fakeBuffer = [0, 0, 0, 0], cursor = 0, inputBuffer = [66, 10, 65, 0],
         inputCursor = 0, inputLength = 3, sitlSocket = None\<rparr> 10 [0, 0, 0, 0] 4
     = Inr (1, [66, 0, 0, 0],
        \<lparr>fakeBuffer = [0, 0, 0, 0], cursor = 0, inputBuffer = [66, 10, 65, 0],
         inputCursor = 2, inputLength = 3, sitlSocket = None\<rparr>)"
  by code_simp

end
